theory Spec2Isabelle
  imports Complex_Main "HOL-Library.Word"
begin

section \<open>The chart state container of src/chartState.js\<close>

text \<open>
  The class \<^verbatim>\<open>ChartState\<close> keeps an array of entries \<^verbatim>\<open>{id: string, value: number}\<close>
  and an array of subscriber callbacks. The embedding follows the types of the JSDoc
  comments: an id is a JavaScript string, a value is a JavaScript number, the argument of
  \<^verbatim>\<open>updateData\<close> is an array of such entries.
\<close>

subsection \<open>JavaScript strings\<close>

text \<open>
  A JavaScript string is a sequence of UTF-16 code units; \<^verbatim>\<open>===\<close> on strings compares
  the sequences. \<open>js_str\<close> writes an ASCII literal as such a sequence.
\<close>

type_synonym code_unit = "16 word"
type_synonym js_string = "code_unit list"

definition js_str :: "string \<Rightarrow> js_string" where
  "js_str s = map (\<lambda>c. of_nat (of_char c)) s"

text \<open>
  The code units that \<^verbatim>\<open>String.prototype.trim\<close> strips: WhiteSpace (TAB, VT, FF, SP,
  NBSP, ZWNBSP and the Unicode space separators) and LineTerminator (LF, CR, LS, PS).
\<close>

definition white_space :: "code_unit list" where
  "white_space =
     [0x0009, 0x000A, 0x000B, 0x000C, 0x000D, 0x0020, 0x00A0, 0x1680,
      0x2000, 0x2001, 0x2002, 0x2003, 0x2004, 0x2005, 0x2006, 0x2007,
      0x2008, 0x2009, 0x200A, 0x2028, 0x2029, 0x202F, 0x205F, 0x3000, 0xFEFF]"

definition is_white_space :: "code_unit \<Rightarrow> bool" where
  "is_white_space c = (c \<in> set white_space)"

definition trim :: "js_string \<Rightarrow> js_string" where
  "trim s = rev (dropWhile is_white_space (rev (dropWhile is_white_space s)))"

subsection \<open>JavaScript numbers\<close>

text \<open>
  A JavaScript number is an IEEE-754 double: a finite value, one of the two infinities,
  or NaN. A finite double is represented by the real number it denotes (the two zeros
  denote the same real; the code only compares values with \<^verbatim>\<open>>\<close> and \<^verbatim>\<open><\<close>, which do
  not tell them apart). The relational operators are false as soon as an operand is NaN.
\<close>

datatype number = Finite real | PosInfinity | NegInfinity | NaN

fun js_lt :: "number \<Rightarrow> number \<Rightarrow> bool" where
  "js_lt NaN y = False"
| "js_lt x NaN = False"
| "js_lt (Finite a) (Finite b) = (a < b)"
| "js_lt (Finite a) PosInfinity = True"
| "js_lt (Finite a) NegInfinity = False"
| "js_lt PosInfinity y = False"
| "js_lt NegInfinity (Finite b) = True"
| "js_lt NegInfinity PosInfinity = True"
| "js_lt NegInfinity NegInfinity = False"

definition js_gt :: "number \<Rightarrow> number \<Rightarrow> bool" where
  "js_gt x y = js_lt y x"

subsection \<open>Entries, errors, the object and the store of arrays\<close>

record entry =
  entry_id :: js_string
  entry_value :: number

text \<open>
  The four \<^verbatim>\<open>throw new Error(...)\<close> of \<^verbatim>\<open>#pushValidItem\<close>, in the order of the source.
  The message of the first one quotes the offending id.
\<close>

datatype error =
    DuplicateId js_string
  | EmptyId
  | ValueTooHigh
  | ValueTooLow

text \<open>How a call ends: it returns, or it throws and the state reached so far stays.\<close>

datatype completion = Returns | Throws error

text \<open>
  Arrays are objects: \<^verbatim>\<open>#chartData\<close> holds a reference, \<^verbatim>\<open>getData\<close> hands out a
  reference to a new array. The store maps an address to the contents of the array there;
  \<open>fresh\<close> is the next address the allocator hands out. Entries are kept as values: the
  container never writes to an entry. A subscriber is an opaque callback of type \<open>'cb\<close>;
  calling it is recorded as the pair of the callback and the address of the array it was
  given. Callbacks are taken to return normally and not to call back into the container.
\<close>

type_synonym addr = nat

record 'cb world =
  arrays :: "addr \<Rightarrow> entry list"
  fresh :: addr
  chartData :: addr
  subscribers :: "'cb list"

type_synonym 'cb calls = "('cb \<times> addr) list"

text \<open>The constructor allocates the empty data array; the subscriber array is empty.\<close>

definition new_ChartState :: "(addr \<Rightarrow> entry list) \<Rightarrow> addr \<Rightarrow> 'cb world" where
  "new_ChartState h n =
     \<lparr>arrays = h(n := []), fresh = Suc n, chartData = n, subscribers = []\<rparr>"

text \<open>\<^verbatim>\<open>getData() { return [...this.#chartData]; }\<close>\<close>

definition getData :: "'cb world \<Rightarrow> addr \<times> 'cb world" where
  "getData w =
     (fresh w,
      w\<lparr>arrays := (arrays w)(fresh w := arrays w (chartData w)), fresh := Suc (fresh w)\<rparr>)"

text \<open>\<^verbatim>\<open>#pushValidItem(newItem)\<close>: four checks in the order of the source, then the push.\<close>

definition pushValidItem :: "entry \<Rightarrow> 'cb world \<Rightarrow> completion \<times> 'cb world" where
  "pushValidItem newItem w =
     (if list_ex (\<lambda>item. entry_id item = entry_id newItem) (arrays w (chartData w))
      then (Throws (DuplicateId (entry_id newItem)), w)
      else if entry_id newItem = [] \<or> trim (entry_id newItem) = []
      then (Throws EmptyId, w)
      else if js_gt (entry_value newItem) (Finite 100)
      then (Throws ValueTooHigh, w)
      else if js_lt (entry_value newItem) (Finite 0)
      then (Throws ValueTooLow, w)
      else (Returns,
            w\<lparr>arrays := (arrays w)(chartData w := arrays w (chartData w) @ [newItem])\<rparr>))"

text \<open>\<^verbatim>\<open>this.#subscribers.forEach((callback) => callback(this.getData()))\<close>\<close>

fun notify_each :: "'cb list \<Rightarrow> 'cb world \<Rightarrow> 'cb calls \<times> 'cb world" where
  "notify_each [] w = ([], w)"
| "notify_each (callback # rest) w =
     (case getData w of (a, w1) \<Rightarrow>
        (case notify_each rest w1 of (tr, w2) \<Rightarrow> ((callback, a) # tr, w2)))"

definition notify :: "'cb world \<Rightarrow> 'cb calls \<times> 'cb world" where
  "notify w = notify_each (subscribers w) w"

text \<open>\<^verbatim>\<open>newData.forEach((item) => this.#pushValidItem(item))\<close>: the first throw ends the loop.\<close>

fun push_each :: "entry list \<Rightarrow> 'cb world \<Rightarrow> completion \<times> 'cb world" where
  "push_each [] w = (Returns, w)"
| "push_each (item # rest) w =
     (case pushValidItem item w of
        (Returns, w1) \<Rightarrow> push_each rest w1
      | (Throws e, w1) \<Rightarrow> (Throws e, w1))"

text \<open>
  \<^verbatim>\<open>updateData(newData)\<close>: \<^verbatim>\<open>this.#chartData.length = 0\<close> empties the array in place,
  then the loop, then \<^verbatim>\<open>#notify\<close>. The result is the completion, the callbacks called
  and the state left behind.
\<close>

definition updateData :: "entry list \<Rightarrow> 'cb world \<Rightarrow> completion \<times> 'cb calls \<times> 'cb world" where
  "updateData newData w =
     (case push_each newData (w\<lparr>arrays := (arrays w)(chartData w := [])\<rparr>) of
        (Throws e, w1) \<Rightarrow> (Throws e, [], w1)
      | (Returns, w1) \<Rightarrow> (case notify w1 of (tr, w2) \<Rightarrow> (Returns, tr, w2)))"

text \<open>\<^verbatim>\<open>addItem(newItem)\<close>\<close>

definition addItem :: "entry \<Rightarrow> 'cb world \<Rightarrow> completion \<times> 'cb calls \<times> 'cb world" where
  "addItem newItem w =
     (case pushValidItem newItem w of
        (Throws e, w1) \<Rightarrow> (Throws e, [], w1)
      | (Returns, w1) \<Rightarrow> (case notify w1 of (tr, w2) \<Rightarrow> (Returns, tr, w2)))"

text \<open>\<^verbatim>\<open>subscribe(callback) { this.#subscribers.push(callback); }\<close>\<close>

definition subscribe :: "'cb \<Rightarrow> 'cb world \<Rightarrow> 'cb world" where
  "subscribe callback w = w\<lparr>subscribers := subscribers w @ [callback]\<rparr>"

subsection \<open>Observations\<close>

text \<open>The contents of the container's own array, and what a caller reads through getData.\<close>

definition dataset :: "'cb world \<Rightarrow> entry list" where
  "dataset w = arrays w (chartData w)"

definition observed :: "'cb world \<Rightarrow> entry list" where
  "observed w = (case getData w of (a, w1) \<Rightarrow> arrays w1 a)"

text \<open>What each callback of a list of calls was given, read in the state \<open>w\<close>.\<close>

definition delivered :: "'cb world \<Rightarrow> 'cb calls \<Rightarrow> ('cb \<times> entry list) list" where
  "delivered w tr = map (\<lambda>(callback, a). (callback, arrays w a)) tr"

subsection \<open>A client's sequence of calls\<close>

text \<open>
  The four public methods, as a client may call them one after the other. \<open>exec\<close> drops
  what a call returns or throws and keeps the state it leaves, which is what the next
  call finds.
\<close>

datatype 'cb call = GetData | Subscribe 'cb | UpdateData "entry list" | AddItem entry

fun exec :: "'cb call \<Rightarrow> 'cb world \<Rightarrow> 'cb world" where
  "exec GetData w = snd (getData w)"
| "exec (Subscribe callback) w = subscribe callback w"
| "exec (UpdateData newData) w = snd (snd (updateData newData w))"
| "exec (AddItem newItem) w = snd (snd (addItem newItem w))"

definition run :: "'cb call list \<Rightarrow> 'cb world \<Rightarrow> 'cb world" where
  "run cs w = fold exec cs w"

subsection \<open>The validation algorithm in the words of the specification\<close>

text \<open>
  Section 4.1 of the specification lists four checks, applied in order against the
  entries accepted so far; the first one that fails gives the error. \<open>blank\<close> is its
  "empty or all-whitespace".
\<close>

definition blank :: "js_string \<Rightarrow> bool" where
  "blank s = list_all is_white_space s"

definition checks :: "entry list \<Rightarrow> entry \<Rightarrow> (bool \<times> error) list" where
  "checks accepted c =
     [(entry_id c \<in> set (map entry_id accepted), DuplicateId (entry_id c)),
      (blank (entry_id c), EmptyId),
      (js_gt (entry_value c) (Finite 100), ValueTooHigh),
      (js_lt (entry_value c) (Finite 0), ValueTooLow)]"

definition first_failing_check :: "entry list \<Rightarrow> entry \<Rightarrow> error option" where
  "first_failing_check accepted c = map_option snd (find fst (checks accepted c))"

text \<open>
  A candidate list is accepted when each candidate passes the checks against the
  candidates before it ("entry N is checked against entries 1..N-1 already accepted").
\<close>

fun accepts :: "entry list \<Rightarrow> entry list \<Rightarrow> bool" where
  "accepts accepted [] = True"
| "accepts accepted (c # cs) =
     (first_failing_check accepted c = None \<and> accepts (accepted @ [c]) cs)"

text \<open>
  The closed range of the data model, \<open>0 \<le> value \<le> 100\<close>, with the JavaScript
  \<^verbatim>\<open><=\<close>: false as soon as an operand is NaN, otherwise the negation of \<^verbatim>\<open>>\<close>.
\<close>

definition js_le :: "number \<Rightarrow> number \<Rightarrow> bool" where
  "js_le x y = (x \<noteq> NaN \<and> y \<noteq> NaN \<and> \<not> js_lt y x)"

definition in_range :: "number \<Rightarrow> bool" where
  "in_range v = (js_le (Finite 0) v \<and> js_le v (Finite 100))"

text \<open>The invariant of section 3 of the specification.\<close>

definition invariant :: "entry list \<Rightarrow> bool" where
  "invariant D =
     (distinct (map entry_id D) \<and>
      list_all (\<lambda>e. trim (entry_id e) \<noteq> [] \<and> in_range (entry_value e)) D)"

text \<open>What the four checks of the code establish for every entry they let through.\<close>

definition passed :: "entry \<Rightarrow> bool" where
  "passed e = (\<not> blank (entry_id e) \<and>
               \<not> js_gt (entry_value e) (Finite 100) \<and> \<not> js_lt (entry_value e) (Finite 0))"

subsection \<open>Auxiliary notions\<close>

text \<open>The state with the contents of the container's own array replaced by \<open>D\<close>.\<close>

definition store :: "entry list \<Rightarrow> 'cb world \<Rightarrow> 'cb world" where
  "store D w = w\<lparr>arrays := (arrays w)(chartData w := D)\<rparr>"

text \<open>
  A client that holds a reference to an array can change it in place (assign elements,
  push, truncate); whatever it does, the array at that address has new contents.
\<close>

definition write_array :: "addr \<Rightarrow> entry list \<Rightarrow> 'cb world \<Rightarrow> 'cb world" where
  "write_array a xs w = w\<lparr>arrays := (arrays w)(a := xs)\<rparr>"

text \<open>The object literal \<^verbatim>\<open>{id: s, value: v}\<close> with an ASCII id.\<close>

definition mk_entry :: "string \<Rightarrow> number \<Rightarrow> entry" where
  "mk_entry s v = \<lparr>entry_id = js_str s, entry_value = v\<rparr>"

text \<open>\<^verbatim>\<open>new ChartState()\<close> on a store that holds no other array.\<close>

definition no_arrays :: "addr \<Rightarrow> entry list" where
  "no_arrays a = []"

definition fresh_container :: "'cb world" where
  "fresh_container = new_ChartState no_arrays 0"

section \<open>Properties\<close>

subsection \<open>Strings, numbers and the checks\<close>

lemma in_range_iff: "in_range v = (\<exists>r. v = Finite r \<and> 0 \<le> r \<and> r \<le> 100)"
  by (cases v) (auto simp add: in_range_def js_le_def)

lemma all_dropWhile: "(\<forall>x \<in> set (dropWhile P s). P x) \<longleftrightarrow> (\<forall>x \<in> set s. P x)"
  by (induction s) auto

lemma trim_Nil_iff: "trim s = [] \<longleftrightarrow> blank s"
  by (simp add: trim_def blank_def list_all_iff all_dropWhile)

lemma empty_test_iff: "(s = [] \<or> trim s = []) \<longleftrightarrow> blank s"
  by (auto simp add: trim_Nil_iff blank_def)

lemma first_failing_check_unfold:
  "first_failing_check acc c =
     (if entry_id c \<in> set (map entry_id acc) then Some (DuplicateId (entry_id c))
      else if blank (entry_id c) then Some EmptyId
      else if js_gt (entry_value c) (Finite 100) then Some ValueTooHigh
      else if js_lt (entry_value c) (Finite 0) then Some ValueTooLow
      else None)"
  by (simp add: first_failing_check_def checks_def)

lemma first_failing_check_None:
  "first_failing_check acc c = None \<longleftrightarrow> entry_id c \<notin> set (map entry_id acc) \<and> passed c"
  by (simp add: first_failing_check_unfold passed_def)

lemma list_ex_id: "list_ex (\<lambda>e. entry_id e = s) D \<longleftrightarrow> s \<in> set (map entry_id D)"
  by (auto simp add: list_ex_iff)

subsection \<open>The operations in terms of the dataset\<close>

lemma store_simps:
  "dataset (store D w) = D" "chartData (store D w) = chartData w"
  "subscribers (store D w) = subscribers w" "fresh (store D w) = fresh w"
  "store D (store E w) = store D w" "store (dataset w) w = w"
  by (simp_all add: store_def dataset_def)

lemma pushValidItem_refines:
  "pushValidItem c w =
     (case first_failing_check (dataset w) c of
        Some err \<Rightarrow> (Throws err, w)
      | None \<Rightarrow> (Returns, store (dataset w @ [c]) w))"
  by (simp add: pushValidItem_def first_failing_check_unfold list_ex_id empty_test_iff
      dataset_def store_def)

lemma push_each_accepts:
  "accepts (dataset w) cs \<Longrightarrow> push_each cs w = (Returns, store (dataset w @ cs) w)"
proof (induction cs arbitrary: w)
  case Nil
  show ?case by (simp add: store_simps)
next
  case (Cons c cs)
  from Cons.prems have c: "first_failing_check (dataset w) c = None"
    and cs: "accepts (dataset (store (dataset w @ [c]) w)) cs"
    by (simp_all add: store_simps)
  show ?case
    using Cons.IH [OF cs] c by (simp add: pushValidItem_refines store_simps)
qed

lemma push_each_rejects:
  "accepts (dataset w) pre \<Longrightarrow> first_failing_check (dataset w @ pre) c = Some err \<Longrightarrow>
   push_each (pre @ c # post) w = (Throws err, store (dataset w @ pre) w)"
proof (induction pre arbitrary: w)
  case Nil
  then show ?case by (simp add: pushValidItem_refines store_simps)
next
  case (Cons p pre)
  from Cons.prems have p: "first_failing_check (dataset w) p = None"
    and pre: "accepts (dataset (store (dataset w @ [p]) w)) pre"
    and c: "first_failing_check (dataset (store (dataset w @ [p]) w) @ pre) c = Some err"
    by (simp_all add: store_simps)
  show ?case
    using Cons.IH [OF pre c] p by (simp add: pushValidItem_refines store_simps)
qed

lemma accepts_append:
  "accepts acc (xs @ ys) \<longleftrightarrow> accepts acc xs \<and> accepts (acc @ xs) ys"
  by (induction xs arbitrary: acc) auto

lemma accepts_iff:
  "accepts acc cs \<longleftrightarrow>
     distinct (map entry_id cs) \<and> set (map entry_id acc) \<inter> set (map entry_id cs) = {} \<and>
     list_all passed cs"
  by (induction cs arbitrary: acc) (auto simp add: first_failing_check_None)

text \<open>Every candidate list is accepted as a whole or has a first rejected candidate.\<close>

lemma accepts_or_first_rejected:
  "accepts acc cs \<or>
   (\<exists>pre c post err. cs = pre @ c # post \<and> accepts acc pre \<and>
      first_failing_check (acc @ pre) c = Some err)"
proof (induction cs arbitrary: acc)
  case Nil
  show ?case by simp
next
  case (Cons x xs)
  show ?case
  proof (cases "first_failing_check acc x")
    case (Some err)
    then have "x # xs = [] @ x # xs \<and> accepts acc [] \<and> first_failing_check (acc @ []) x = Some err"
      by simp
    then show ?thesis by blast
  next
    case None
    from Cons.IH [of "acc @ [x]"] show ?thesis
    proof
      assume "accepts (acc @ [x]) xs"
      with None show ?thesis by simp
    next
      assume "\<exists>pre c post err. xs = pre @ c # post \<and> accepts (acc @ [x]) pre \<and>
        first_failing_check ((acc @ [x]) @ pre) c = Some err"
      then obtain pre c post err where "xs = pre @ c # post" "accepts (acc @ [x]) pre"
        "first_failing_check ((acc @ [x]) @ pre) c = Some err" by blast
      with None have "x # xs = (x # pre) @ c # post \<and> accepts acc (x # pre) \<and>
        first_failing_check (acc @ (x # pre)) c = Some err" by simp
      then show ?thesis by blast
    qed
  qed
qed

lemma getData_simps:
  "fst (getData w) = fresh w"
  "dataset (snd (getData w)) = dataset w"
  "chartData (snd (getData w)) = chartData w"
  "subscribers (snd (getData w)) = subscribers w"
  "fresh (snd (getData w)) = Suc (fresh w)"
  "arrays (snd (getData w)) = (arrays w)(fresh w := dataset w)"
  by (simp_all add: getData_def dataset_def)

lemma observed_eq: "observed w = dataset w"
  by (simp add: observed_def getData_def dataset_def)

lemma notify_each_props:
  "notify_each cbs w = (tr, w') \<Longrightarrow>
     map fst tr = cbs \<and> map snd tr = [fresh w ..< fresh w + length cbs] \<and>
     chartData w' = chartData w \<and> subscribers w' = subscribers w \<and>
     fresh w' = fresh w + length cbs \<and>
     arrays w' = (\<lambda>a. if fresh w \<le> a \<and> a < fresh w + length cbs then dataset w else arrays w a)"
proof (induction cbs arbitrary: w tr w')
  case Nil
  then show ?case by (auto simp add: fun_eq_iff)
next
  case (Cons cb cbs)
  obtain tr1 w1 where r: "notify_each cbs (snd (getData w)) = (tr1, w1)"
    by (cases "notify_each cbs (snd (getData w))")
  from Cons.prems r have tr: "tr = (cb, fresh w) # tr1" and w': "w' = w1"
    by (auto simp add: getData_def split: prod.splits)
  note ih = Cons.IH [OF r]
  have "map snd tr = fresh w # [Suc (fresh w) ..< Suc (fresh w) + length cbs]"
    using ih tr by (simp add: getData_simps)
  then have "map snd tr = [fresh w ..< fresh w + length (cb # cbs)]"
    by (simp add: upt_rec)
  moreover have "arrays w' =
      (\<lambda>a. if fresh w \<le> a \<and> a < fresh w + length (cb # cbs) then dataset w else arrays w a)"
    using ih w' by (auto simp add: getData_simps fun_eq_iff)
  ultimately show ?case
    using ih tr w' by (simp add: getData_simps)
qed

lemma notify_props:
  "notify w = (tr, w') \<Longrightarrow>
     map fst tr = subscribers w \<and> dataset w' = dataset w \<and>
     chartData w' = chartData w \<and> subscribers w' = subscribers w \<and>
     delivered w' tr = map (\<lambda>callback. (callback, dataset w)) (subscribers w)"
proof -
  assume n: "notify w = (tr, w')"
  note p = notify_each_props [OF n [unfolded notify_def]]
  have d: "dataset w' = dataset w"
    using p by (simp add: dataset_def)
  have "\<forall>a \<in> set (map snd tr). arrays w' a = dataset w"
    using p by simp
  then have "map (\<lambda>(callback, a). (callback, arrays w' a)) tr = map (\<lambda>(callback, a). (callback, dataset w)) tr"
    by auto
  also have "\<dots> = map (\<lambda>callback. (callback, dataset w)) (map fst tr)"
    by (simp add: case_prod_unfold comp_def)
  finally show ?thesis
    using p d by (simp add: delivered_def)
qed

lemma addItem_refines:
  "addItem c w =
     (case first_failing_check (dataset w) c of
        Some err \<Rightarrow> (Throws err, [], w)
      | None \<Rightarrow> (Returns, notify (store (dataset w @ [c]) w)))"
  by (simp add: addItem_def pushValidItem_refines split: option.splits prod.splits)

lemma updateData_accepts:
  "accepts [] cs \<Longrightarrow> updateData cs w = (Returns, notify (store cs w))"
  using push_each_accepts [of "store [] w" cs]
  by (simp add: updateData_def store_simps store_def [symmetric] split: prod.splits)

lemma updateData_rejects:
  "accepts [] pre \<Longrightarrow> first_failing_check pre c = Some err \<Longrightarrow>
   updateData (pre @ c # post) w = (Throws err, [], store pre w)"
  using push_each_rejects [of "store [] w" pre c err post]
  by (simp add: updateData_def store_simps store_def [symmetric])

subsection \<open>Reachable states\<close>

lemma updateData_dataset:
  "accepts [] pre \<Longrightarrow> \<exists>ys. dataset (snd (snd (updateData (pre @ zs) w))) = pre @ ys \<and> accepts [] (pre @ ys)"
proof -
  assume pre: "accepts [] pre"
  from accepts_or_first_rejected [of pre zs] show ?thesis
  proof
    assume "accepts pre zs"
    with pre have a: "accepts [] (pre @ zs)" by (simp add: accepts_append)
    obtain tr w' where n: "notify (store (pre @ zs) w) = (tr, w')"
      by (cases "notify (store (pre @ zs) w)")
    from notify_props [OF n] have "dataset w' = pre @ zs" by (simp add: store_simps)
    with a n show ?thesis by (auto simp add: updateData_accepts)
  next
    assume "\<exists>p c post err. zs = p @ c # post \<and> accepts pre p \<and>
      first_failing_check (pre @ p) c = Some err"
    then obtain p c post err where zs: "zs = p @ c # post" and p: "accepts pre p"
      and c: "first_failing_check (pre @ p) c = Some err" by blast
    from pre p have a: "accepts [] (pre @ p)" by (simp add: accepts_append)
    have "updateData ((pre @ p) @ c # post) w = (Throws err, [], store (pre @ p) w)"
      using a c by (rule updateData_rejects)
    with a zs show ?thesis by (auto simp add: store_simps)
  qed
qed

lemma addItem_dataset:
  "dataset (snd (snd (addItem c w))) =
     (if first_failing_check (dataset w) c = None then dataset w @ [c] else dataset w)"
proof (cases "first_failing_check (dataset w) c")
  case None
  obtain tr w' where n: "notify (store (dataset w @ [c]) w) = (tr, w')"
    by (cases "notify (store (dataset w @ [c]) w)")
  from notify_props [OF n] have "dataset w' = dataset w @ [c]" by (simp add: store_simps)
  with None n show ?thesis by (simp add: addItem_refines)
next
  case (Some err)
  then show ?thesis by (simp add: addItem_refines)
qed

lemma exec_accepts: "accepts [] (dataset w) \<Longrightarrow> accepts [] (dataset (exec c w))"
proof (cases c)
  case GetData
  assume "accepts [] (dataset w)"
  with GetData show ?thesis by (simp add: getData_simps)
next
  case (Subscribe cb)
  assume "accepts [] (dataset w)"
  with Subscribe show ?thesis by (simp add: subscribe_def dataset_def)
next
  case (UpdateData cs)
  from updateData_dataset [of "[]" cs w] UpdateData show ?thesis by auto
next
  case (AddItem e)
  assume "accepts [] (dataset w)"
  with AddItem show ?thesis by (simp add: addItem_dataset accepts_append)
qed

lemma run_accepts: "accepts [] (dataset w) \<Longrightarrow> accepts [] (dataset (run cs w))"
  unfolding run_def by (induction cs arbitrary: w) (simp_all add: exec_accepts)

lemma dataset_new: "dataset (new_ChartState h n) = []"
  by (simp add: new_ChartState_def dataset_def)

lemma reachable_accepts: "accepts [] (dataset (run cs (new_ChartState h n)))"
  by (rule run_accepts) (simp add: dataset_new)

text \<open>What holds of the dataset after any sequence of calls.\<close>

lemma reachable_dataset:
  "distinct (map entry_id (dataset (run cs (new_ChartState h n)))) \<and>
   list_all passed (dataset (run cs (new_ChartState h n)))"
  using reachable_accepts [of cs h n] by (simp add: accepts_iff)

lemma notify_frame:
  "chartData (snd (notify w)) = chartData w \<and> fresh w \<le> fresh (snd (notify w))"
proof (cases "notify w")
  case (Pair tr w')
  from notify_each_props [OF Pair [unfolded notify_def]] Pair show ?thesis by simp
qed

lemma pushValidItem_frame:
  "chartData (snd (pushValidItem c w)) = chartData w \<and> fresh (snd (pushValidItem c w)) = fresh w"
  by (simp add: pushValidItem_refines store_simps split: option.splits)

lemma push_each_frame:
  "chartData (snd (push_each cs w)) = chartData w \<and> fresh (snd (push_each cs w)) = fresh w"
proof (induction cs arbitrary: w)
  case Nil
  show ?case by simp
next
  case (Cons c cs)
  obtain r w1 where p: "pushValidItem c w = (r, w1)" by (cases "pushValidItem c w")
  with pushValidItem_frame [of c w] have f: "chartData w1 = chartData w" "fresh w1 = fresh w"
    by simp_all
  show ?case
  proof (cases r)
    case Returns
    with p f Cons.IH [of w1] show ?thesis by simp
  next
    case (Throws e)
    with p f show ?thesis by simp
  qed
qed

lemma updateData_frame:
  "chartData (snd (snd (updateData cs w))) = chartData w \<and>
   fresh w \<le> fresh (snd (snd (updateData cs w)))"
proof -
  obtain r w1 where p: "push_each cs (store [] w) = (r, w1)"
    by (cases "push_each cs (store [] w)")
  with push_each_frame [of cs "store [] w"]
  have f: "chartData w1 = chartData w" "fresh w1 = fresh w"
    by (simp_all add: store_simps)
  show ?thesis
  proof (cases r)
    case Returns
    with p f notify_frame [of w1] show ?thesis
      by (simp add: updateData_def store_def [symmetric] split: prod.splits)
  next
    case (Throws e)
    with p f show ?thesis by (simp add: updateData_def store_def [symmetric])
  qed
qed

lemma addItem_frame:
  "chartData (snd (snd (addItem c w))) = chartData w \<and>
   fresh w \<le> fresh (snd (snd (addItem c w)))"
proof -
  obtain r w1 where p: "pushValidItem c w = (r, w1)" by (cases "pushValidItem c w")
  with pushValidItem_frame [of c w] have f: "chartData w1 = chartData w" "fresh w1 = fresh w"
    by simp_all
  show ?thesis
  proof (cases r)
    case Returns
    with p f notify_frame [of w1] show ?thesis
      by (simp add: addItem_def split: prod.splits)
  next
    case (Throws e)
    with p f show ?thesis by (simp add: addItem_def)
  qed
qed

lemma exec_frame:
  "chartData (exec c w) = chartData w \<and> fresh w \<le> fresh (exec c w)"
  by (cases c) (simp_all add: getData_simps subscribe_def updateData_frame addItem_frame)

lemma run_frame:
  "chartData (run cs w) = chartData w \<and> fresh w \<le> fresh (run cs w)"
  unfolding run_def
proof (induction cs arbitrary: w)
  case Nil
  show ?case by simp
next
  case (Cons c cs)
  from Cons.IH [of "exec c w"] exec_frame [of c w] show ?case by simp
qed

text \<open>The container's own array was allocated before every array handed out later.\<close>

lemma reachable_allocated:
  "chartData (run cs (new_ChartState h n)) < fresh (run cs (new_ChartState h n))"
  using run_frame [of cs "new_ChartState h n"] by (simp add: new_ChartState_def)

subsection \<open>Writes to arrays the container does not own\<close>

lemma write_array_simps:
  "chartData (write_array a xs w) = chartData w"
  "fresh (write_array a xs w) = fresh w"
  "subscribers (write_array a xs w) = subscribers w"
  "a \<noteq> chartData w \<Longrightarrow> dataset (write_array a xs w) = dataset w"
  by (simp_all add: write_array_def dataset_def)

lemma getData_write_array:
  "a \<noteq> chartData w \<Longrightarrow> a < fresh w \<Longrightarrow>
   getData (write_array a xs w) = (fresh w, write_array a xs (snd (getData w)))"
  by (auto simp add: getData_def write_array_def fun_eq_iff)

lemma pushValidItem_write_array:
  "a \<noteq> chartData w \<Longrightarrow>
   pushValidItem c (write_array a xs w) =
     (fst (pushValidItem c w), write_array a xs (snd (pushValidItem c w)))"
  by (auto simp add: pushValidItem_def write_array_def fun_eq_iff)

lemma notify_each_write_array:
  "a \<noteq> chartData w \<Longrightarrow> a < fresh w \<Longrightarrow>
   notify_each cbs (write_array a xs w) =
     (fst (notify_each cbs w), write_array a xs (snd (notify_each cbs w)))"
proof (induction cbs arbitrary: w)
  case Nil
  show ?case by simp
next
  case (Cons cb cbs)
  have "a \<noteq> chartData (snd (getData w))" "a < fresh (snd (getData w))"
    using Cons.prems by (simp_all add: getData_simps)
  from Cons.IH [OF this] Cons.prems show ?case
    by (simp add: getData_write_array getData_simps split: prod.splits)
       (simp add: getData_def)
qed

lemma push_each_write_array:
  "a \<noteq> chartData w \<Longrightarrow>
   push_each cs (write_array a xs w) =
     (fst (push_each cs w), write_array a xs (snd (push_each cs w)))"
proof (induction cs arbitrary: w)
  case Nil
  show ?case by simp
next
  case (Cons c cs)
  obtain r w1 where p: "pushValidItem c w = (r, w1)" by (cases "pushValidItem c w")
  with pushValidItem_frame [of c w] Cons.prems have "a \<noteq> chartData w1" by simp
  from Cons.IH [OF this] p Cons.prems show ?case
    by (cases r) (simp_all add: pushValidItem_write_array)
qed

lemma updateData_store:
  "updateData cs w =
     (case push_each cs (store [] w) of
        (Throws e, w1) \<Rightarrow> (Throws e, [], w1)
      | (Returns, w1) \<Rightarrow> (Returns, notify w1))"
  by (simp add: updateData_def store_def split: prod.splits completion.splits)

lemma exec_write_array:
  assumes "a \<noteq> chartData w" and "a < fresh w"
  shows "exec c (write_array a xs w) = write_array a xs (exec c w)"
proof (cases c)
  case GetData
  with assms show ?thesis by (simp add: getData_write_array)
next
  case (Subscribe cb)
  then show ?thesis by (simp add: subscribe_def write_array_def)
next
  case (UpdateData cs)
  have s: "store [] (write_array a xs w) = write_array a xs (store [] w)"
    using assms by (auto simp add: store_def write_array_def fun_eq_iff)
  obtain r w1 where p: "push_each cs (store [] w) = (r, w1)"
    by (cases "push_each cs (store [] w)")
  with push_each_frame [of cs "store [] w"] assms
  have f: "a \<noteq> chartData w1" "a < fresh w1" by (simp_all add: store_simps)
  have "push_each cs (write_array a xs (store [] w)) = (r, write_array a xs w1)"
    using assms p by (simp add: push_each_write_array store_simps)
  with UpdateData s p f show ?thesis
    by (cases r)
       (simp_all add: updateData_store notify_def write_array_simps notify_each_write_array)
next
  case (AddItem e)
  obtain r w1 where p: "pushValidItem e w = (r, w1)" by (cases "pushValidItem e w")
  with pushValidItem_frame [of e w] assms
  have f: "a \<noteq> chartData w1" "a < fresh w1" by simp_all
  with AddItem p assms show ?thesis
    by (cases r)
       (simp_all add: addItem_def pushValidItem_write_array notify_def write_array_simps
          notify_each_write_array split: prod.splits)
qed

lemma run_write_array:
  "a \<noteq> chartData w \<Longrightarrow> a < fresh w \<Longrightarrow>
   run cs (write_array a xs w) = write_array a xs (run cs w)"
  unfolding run_def
proof (induction cs arbitrary: w)
  case Nil
  show ?case by simp
next
  case (Cons c cs)
  from exec_frame [of c w] Cons.prems
  have "a \<noteq> chartData (exec c w)" "a < fresh (exec c w)" by simp_all
  from Cons.IH [OF this] Cons.prems show ?case by (simp add: exec_write_array)
qed

text \<open>Calls leave alone every allocated array other than the container's own.\<close>

lemma write_array_same: "write_array b (arrays w b) w = w"
  by (simp add: write_array_def)

lemma run_keeps_arrays:
  assumes "b \<noteq> chartData w" and "b < fresh w"
  shows "arrays (run cs w) b = arrays w b"
proof -
  have "run cs w = run cs (write_array b (arrays w b) w)"
    by (simp add: write_array_same)
  also have "\<dots> = write_array b (arrays w b) (run cs w)"
    using assms by (rule run_write_array)
  finally have "arrays (run cs w) b = arrays (write_array b (arrays w b) (run cs w)) b"
    by simp
  then show ?thesis by (simp add: write_array_def)
qed

subsection \<open>The range outside NaN\<close>

text \<open>
  NaN is the only value that the two range tests let through and that is not between 0
  and 100: for every other value the invariant of the data model holds in every state a
  container can reach, and addItem throws exactly on the invalid entries.
\<close>

lemma range_tests_iff:
  "v \<noteq> NaN \<Longrightarrow> (\<not> js_gt v (Finite 100) \<and> \<not> js_lt v (Finite 0)) = in_range v"
  by (cases v) (auto simp add: js_gt_def in_range_def js_le_def)

lemma reachable_range_or_NaN:
  "list_all (\<lambda>e. in_range (entry_value e) \<or> entry_value e = NaN)
     (dataset (run cs (new_ChartState h n)))"
proof -
  have "in_range (entry_value e) \<or> entry_value e = NaN" if "passed e" for e
    using that range_tests_iff [of "entry_value e"] by (auto simp add: passed_def)
  with reachable_dataset [of cs h n] show ?thesis
    by (simp add: list_all_iff)
qed

lemma reachable_invariant_except_NaN:
  assumes "\<forall>e \<in> set (dataset (run cs (new_ChartState h n))). entry_value e \<noteq> NaN"
  shows "invariant (dataset (run cs (new_ChartState h n)))"
proof -
  let ?D = "dataset (run cs (new_ChartState h n))"
  from reachable_dataset [of cs h n]
  have d: "distinct (map entry_id ?D)" and p: "\<forall>e \<in> set ?D. passed e"
    by (simp_all add: list_all_iff)
  have "trim (entry_id e) \<noteq> [] \<and> in_range (entry_value e)" if "e \<in> set ?D" for e
  proof -
    from that p have "passed e" by blast
    moreover from that assms have "entry_value e \<noteq> NaN" by blast
    ultimately show ?thesis
      using range_tests_iff [of "entry_value e"] by (simp add: passed_def trim_Nil_iff)
  qed
  with d show ?thesis by (simp add: invariant_def list_all_iff)
qed

lemma addItem_contract_except_NaN:
  assumes "entry_value c \<noteq> NaN"
  shows "(\<exists>err. addItem c w = (Throws err, [], w)) =
           (entry_id c \<in> set (map entry_id (dataset w)) \<or> blank (entry_id c) \<or>
            \<not> in_range (entry_value c))"
    and "fst (addItem c w) = Returns \<or> (\<exists>err. addItem c w = (Throws err, [], w))"
    and "fst (addItem c w) = Returns \<Longrightarrow> dataset (snd (snd (addItem c w))) = dataset w @ [c]"
proof -
  show "(\<exists>err. addItem c w = (Throws err, [], w)) =
           (entry_id c \<in> set (map entry_id (dataset w)) \<or> blank (entry_id c) \<or>
            \<not> in_range (entry_value c))"
    using range_tests_iff [OF assms]
    by (auto simp add: addItem_refines first_failing_check_unfold split: prod.splits)
  show "fst (addItem c w) = Returns \<or> (\<exists>err. addItem c w = (Throws err, [], w))"
    by (cases "first_failing_check (dataset w) c")
       (simp_all add: addItem_refines split: prod.splits)
  show "dataset (snd (snd (addItem c w))) = dataset w @ [c]" if "fst (addItem c w) = Returns"
    using that
    by (cases "first_failing_check (dataset w) c")
       (simp_all add: addItem_dataset, simp add: addItem_refines)
qed

section \<open>The claims\<close>

text \<open>Definitions to unfold when a call is evaluated on concrete entries.\<close>

lemmas sample_simps =
  run_def fresh_container_def new_ChartState_def no_arrays_def mk_entry_def js_str_def
  updateData_def addItem_def pushValidItem_def notify_def getData_def subscribe_def
  dataset_def observed_def delivered_def store_def write_array_def
  trim_def is_white_space_def white_space_def js_gt_def

lemmas check_simps =
  first_failing_check_unfold blank_def is_white_space_def white_space_def js_gt_def
  mk_entry_def js_str_def

text \<open>
  Claim C1: when a candidate fails validation, updateData throws and the dataset read
  afterwards through getData is the one from before the call. The code empties its array
  before it validates, so the second half does not hold: on a container that holds
  \<^verbatim>\<open>[{id:"x",value:50}]\<close>, \<^verbatim>\<open>updateData([{id:"a",value:50},{id:"a",value:60}])\<close>
  throws the duplicate-id error and leaves \<^verbatim>\<open>[{id:"a",value:50}]\<close>.
\<close>

theorem updateData_failure_loses_previous_dataset:
  "observed (run [AddItem (mk_entry ''x'' (Finite 50))] (fresh_container :: string world)) =
     [mk_entry ''x'' (Finite 50)] \<and>
   fst (updateData [mk_entry ''a'' (Finite 50), mk_entry ''a'' (Finite 60)]
         (run [AddItem (mk_entry ''x'' (Finite 50))] (fresh_container :: string world))) =
     Throws (DuplicateId (js_str ''a'')) \<and>
   observed (snd (snd (updateData [mk_entry ''a'' (Finite 50), mk_entry ''a'' (Finite 60)]
         (run [AddItem (mk_entry ''x'' (Finite 50))] (fresh_container :: string world))))) =
     [mk_entry ''a'' (Finite 50)]"
  by (simp add: sample_simps)

text \<open>
  Claim C2: when the first invalid candidate of a list is at position N, updateData throws
  its error, the container's array then holds exactly the candidates before position N
  (whatever it held before the call), and no subscriber is called. The state left is
  the state before the call with only the container's array replaced.
\<close>

theorem updateData_failure_leaves_accepted_prefix:
  assumes "accepts [] pre" and "first_failing_check pre c = Some err"
  shows "updateData (pre @ c # post) w = (Throws err, [], store pre w) \<and>
         dataset (store pre w) = pre \<and> observed (store pre w) = pre \<and>
         subscribers (store pre w) = subscribers w"
  using updateData_rejects [OF assms] by (simp add: store_simps observed_eq)

text \<open>
  On a container with subscriber A that holds \<^verbatim>\<open>[{id:"x",value:50}]\<close>, the candidates
  a, a, b stop at the second one and leave \<^verbatim>\<open>[{id:"a",value:50}]\<close>.
\<close>

theorem updateData_failure_leaves_accepted_prefix_witness:
  "accepts [] [mk_entry ''a'' (Finite 50)] \<and>
   first_failing_check [mk_entry ''a'' (Finite 50)] (mk_entry ''a'' (Finite 60)) =
     Some (DuplicateId (js_str ''a'')) \<and>
   updateData ([mk_entry ''a'' (Finite 50)] @ mk_entry ''a'' (Finite 60) # [mk_entry ''b'' (Finite 1)])
     (run [Subscribe ''A'', AddItem (mk_entry ''x'' (Finite 50))] fresh_container) =
     (Throws (DuplicateId (js_str ''a'')), [],
      store [mk_entry ''a'' (Finite 50)]
        (run [Subscribe ''A'', AddItem (mk_entry ''x'' (Finite 50))] fresh_container)) \<and>
   dataset (store [mk_entry ''a'' (Finite 50)]
        (run [Subscribe ''A'', AddItem (mk_entry ''x'' (Finite 50))] fresh_container)) =
     [mk_entry ''a'' (Finite 50)]"
proof -
  have a: "accepts [] [mk_entry ''a'' (Finite 50)]"
    by (simp add: check_simps)
  have c: "first_failing_check [mk_entry ''a'' (Finite 50)] (mk_entry ''a'' (Finite 60)) =
     Some (DuplicateId (js_str ''a''))"
    by (simp add: check_simps)
  from updateData_failure_leaves_accepted_prefix [OF a c, of "[mk_entry ''b'' (Finite 1)]"
      "run [Subscribe ''A'', AddItem (mk_entry ''x'' (Finite 50))] fresh_container"] a c
  show ?thesis by simp
qed

text \<open>
  Claim C3: after any sequence of calls the dataset has pairwise different ids, ids that
  are not empty after trimming, and values between 0 and 100. Uniqueness and the ids hold
  (\<open>reachable_dataset\<close>), and every stored value is in the range or is NaN
  (\<open>reachable_range_or_NaN\<close>); but \<^verbatim>\<open>addItem({id:"n",value:NaN})\<close> on a new
  container stores a value outside the range.
\<close>

theorem NaN_entry_breaks_range_invariant:
  "dataset (run [AddItem (mk_entry ''n'' NaN)] (fresh_container :: string world)) =
     [mk_entry ''n'' NaN] \<and>
   \<not> invariant (dataset (run [AddItem (mk_entry ''n'' NaN)] (fresh_container :: string world)))"
  by (simp add: sample_simps invariant_def in_range_def js_le_def)

text \<open>
  Claim C4: a candidate is checked in this order: duplicate of an accepted id, empty or
  all-whitespace id, value above 100, value below 0; the first check that fails gives the
  error. \<open>first_failing_check\<close> is this list of checks as the specification words it,
  and \<^verbatim>\<open>#pushValidItem\<close> throws what it finds, or pushes. Within updateData the
  candidate after the accepted candidates \<open>pre\<close> is checked against \<open>pre\<close> alone:
  whatever follows it in the list, it is rejected with the error found against \<open>pre\<close>,
  or it is pushed right behind \<open>pre\<close>.
\<close>

theorem validation_order:
  "pushValidItem c w =
     (case first_failing_check (dataset w) c of
        Some err \<Rightarrow> (Throws err, w)
      | None \<Rightarrow> (Returns, store (dataset w @ [c]) w)) \<and>
   (accepts [] pre \<longrightarrow>
     (case first_failing_check pre c of
        Some err \<Rightarrow> fst (updateData (pre @ c # post) w) = Throws err
      | None \<Rightarrow> take (Suc (length pre)) (dataset (snd (snd (updateData (pre @ c # post) w)))) =
                pre @ [c]))"
proof (intro conjI impI)
  show "pushValidItem c w =
     (case first_failing_check (dataset w) c of
        Some err \<Rightarrow> (Throws err, w)
      | None \<Rightarrow> (Returns, store (dataset w @ [c]) w))"
    by (rule pushValidItem_refines)
next
  assume pre: "accepts [] pre"
  show "case first_failing_check pre c of
        Some err \<Rightarrow> fst (updateData (pre @ c # post) w) = Throws err
      | None \<Rightarrow> take (Suc (length pre)) (dataset (snd (snd (updateData (pre @ c # post) w)))) =
                pre @ [c]"
  proof (cases "first_failing_check pre c")
    case (Some err)
    with updateData_rejects [OF pre Some, of post w] show ?thesis by simp
  next
    case None
    with pre have "accepts [] (pre @ [c])" by (simp add: accepts_append)
    from updateData_dataset [OF this, of post w] obtain ys
      where "dataset (snd (snd (updateData (pre @ c # post) w))) = (pre @ [c]) @ ys"
      by auto
    with None show ?thesis by simp
  qed
qed

text \<open>
  On a container that holds \<^verbatim>\<open>[{id:"x",value:50}]\<close>: a duplicate id with a value of 150
  gives the duplicate-id error, a blank id with a value of 150 the empty-id error; and in
  \<^verbatim>\<open>updateData([{id:"a",value:50},{id:"a",value:60}])\<close> it is the second candidate that
  is rejected, the first one having been pushed.
\<close>

theorem validation_order_witness:
  "fst (pushValidItem (mk_entry ''x'' (Finite 150))
         (run [AddItem (mk_entry ''x'' (Finite 50))] (fresh_container :: string world))) =
     Throws (DuplicateId (js_str ''x'')) \<and>
   fst (pushValidItem (mk_entry ''  '' (Finite 150))
         (run [AddItem (mk_entry ''x'' (Finite 50))] (fresh_container :: string world))) =
     Throws EmptyId \<and>
   accepts [] [] \<and>
   take (Suc (length [])) (dataset (snd (snd (updateData
       ([] @ mk_entry ''a'' (Finite 50) # [mk_entry ''a'' (Finite 60)])
       (fresh_container :: string world))))) = [] @ [mk_entry ''a'' (Finite 50)] \<and>
   accepts [] [mk_entry ''a'' (Finite 50)] \<and>
   fst (updateData ([mk_entry ''a'' (Finite 50)] @ mk_entry ''a'' (Finite 60) # [])
       (fresh_container :: string world)) = Throws (DuplicateId (js_str ''a''))"
proof -
  let ?w = "run [AddItem (mk_entry ''x'' (Finite 50))] (fresh_container :: string world)"
  have d: "dataset ?w = [mk_entry ''x'' (Finite 50)]"
    by (simp add: sample_simps)
  have 1: "first_failing_check [mk_entry ''x'' (Finite 50)] (mk_entry ''x'' (Finite 150)) =
      Some (DuplicateId (js_str ''x''))"
    by (simp add: check_simps)
  have 2: "first_failing_check [mk_entry ''x'' (Finite 50)] (mk_entry ''  '' (Finite 150)) =
      Some EmptyId"
    by (simp add: check_simps)
  have 3: "first_failing_check [] (mk_entry ''a'' (Finite 50)) = None"
    by (simp add: check_simps)
  have 4: "first_failing_check [mk_entry ''a'' (Finite 50)] (mk_entry ''a'' (Finite 60)) =
      Some (DuplicateId (js_str ''a''))"
    by (simp add: check_simps)
  from validation_order [of "mk_entry ''x'' (Finite 150)" ?w "[]" "[]"] d 1
  have "fst (pushValidItem (mk_entry ''x'' (Finite 150)) ?w) = Throws (DuplicateId (js_str ''x''))"
    by simp
  moreover from validation_order [of "mk_entry ''  '' (Finite 150)" ?w "[]" "[]"] d 2
  have "fst (pushValidItem (mk_entry ''  '' (Finite 150)) ?w) = Throws EmptyId"
    by simp
  moreover from validation_order [of "mk_entry ''a'' (Finite 50)" "fresh_container :: string world"
      "[]" "[mk_entry ''a'' (Finite 60)]"] 3
  have "take (Suc (length [])) (dataset (snd (snd (updateData
       ([] @ mk_entry ''a'' (Finite 50) # [mk_entry ''a'' (Finite 60)])
       (fresh_container :: string world))))) = [] @ [mk_entry ''a'' (Finite 50)]"
    by simp
  moreover from validation_order [of "mk_entry ''a'' (Finite 60)" "fresh_container :: string world"
      "[mk_entry ''a'' (Finite 50)]" "[]"] 3 4
  have "fst (updateData ([mk_entry ''a'' (Finite 50)] @ mk_entry ''a'' (Finite 60) # [])
       (fresh_container :: string world)) = Throws (DuplicateId (js_str ''a''))"
    by simp
  ultimately show ?thesis using 3 by simp
qed

lemma updateData_Returns_iff: "fst (updateData cs w) = Returns \<longleftrightarrow> accepts [] cs"
proof
  assume r: "fst (updateData cs w) = Returns"
  show "accepts [] cs"
  proof (rule ccontr)
    assume "\<not> accepts [] cs"
    with accepts_or_first_rejected [of "[]" cs] obtain pre c post err
      where "cs = pre @ c # post" "accepts [] pre" "first_failing_check pre c = Some err"
      by auto
    with updateData_rejects [of pre c err post w] r show False by simp
  qed
next
  assume "accepts [] cs"
  then show "fst (updateData cs w) = Returns" by (simp add: updateData_accepts)
qed

text \<open>
  Claim C5: addItem throws exactly when the entry is invalid against the current dataset
  (duplicate id, empty or whitespace id, value out of the range 0 to 100), leaves the
  dataset unchanged when it throws and appends the entry otherwise. This holds for every
  value other than NaN (\<open>addItem_contract_except_NaN\<close>). A value NaN is out of the
  range, yet \<^verbatim>\<open>addItem({id:"n",value:NaN})\<close> on a new container returns and appends the
  entry.
\<close>

theorem addItem_accepts_NaN_value:
  "addItem (mk_entry ''n'' NaN) (fresh_container :: string world) =
     (Returns, [], store [mk_entry ''n'' NaN] fresh_container) \<and>
   \<not> in_range (entry_value (mk_entry ''n'' NaN))"
  by (simp add: sample_simps in_range_def js_le_def)

text \<open>
  Claim C6: subscribe appends to the subscriber list, so the list is in registration
  order. When addItem or updateData returns, the callbacks called are the registered
  subscribers, each once and in that order, all before the call returns (they are part
  of its result), and the array each one was given holds the dataset as the mutation
  left it.
\<close>

theorem notification_fan_out:
  "subscribers (subscribe callback w) = subscribers w @ [callback] \<and>
   (addItem c w = (Returns, tr, w') \<longrightarrow>
      map fst tr = subscribers w \<and>
      delivered w' tr = map (\<lambda>callback. (callback, dataset w')) (subscribers w) \<and>
      dataset w' = dataset w @ [c]) \<and>
   (updateData cs w = (Returns, tr, w') \<longrightarrow>
      map fst tr = subscribers w \<and>
      delivered w' tr = map (\<lambda>callback. (callback, dataset w')) (subscribers w) \<and>
      dataset w' = cs)"
proof -
  have "map fst tr = subscribers w \<and>
      delivered w' tr = map (\<lambda>callback. (callback, dataset w')) (subscribers w) \<and>
      dataset w' = dataset w @ [c]"
    if a: "addItem c w = (Returns, tr, w')"
  proof -
    from a have n: "notify (store (dataset w @ [c]) w) = (tr, w')"
      by (simp add: addItem_refines split: option.splits)
    from notify_props [OF n] show ?thesis by (simp add: store_simps)
  qed
  moreover have "map fst tr = subscribers w \<and>
      delivered w' tr = map (\<lambda>callback. (callback, dataset w')) (subscribers w) \<and>
      dataset w' = cs"
    if u: "updateData cs w = (Returns, tr, w')"
  proof -
    from u have "fst (updateData cs w) = Returns" by simp
    then have "accepts [] cs" by (simp add: updateData_Returns_iff)
    with u have n: "notify (store cs w) = (tr, w')"
      by (simp add: updateData_accepts)
    from notify_props [OF n] show ?thesis by (simp add: store_simps)
  qed
  moreover have "subscribers (subscribe callback w) = subscribers w @ [callback]"
    by (simp add: subscribe_def)
  ultimately show ?thesis by blast
qed

text \<open>
  With subscribers A, B and C registered in this order on a new container, addItem of
  \<^verbatim>\<open>{id:"x",value:50}\<close> calls A, then B, then C, each with its own array holding
  \<^verbatim>\<open>[{id:"x",value:50}]\<close>; \<^verbatim>\<open>updateData([])\<close> calls them with empty arrays.
\<close>

theorem notification_fan_out_witness:
  "addItem (mk_entry ''x'' (Finite 50))
     (run [Subscribe ''A'', Subscribe ''B'', Subscribe ''C''] fresh_container) =
     (Returns, [(''A'', 1), (''B'', 2), (''C'', 3)],
      snd (snd (addItem (mk_entry ''x'' (Finite 50))
        (run [Subscribe ''A'', Subscribe ''B'', Subscribe ''C''] fresh_container)))) \<and>
   map fst [(''A'', 1 :: addr), (''B'', 2), (''C'', 3)] = [''A'', ''B'', ''C''] \<and>
   delivered (snd (snd (addItem (mk_entry ''x'' (Finite 50))
        (run [Subscribe ''A'', Subscribe ''B'', Subscribe ''C''] fresh_container))))
     [(''A'', 1), (''B'', 2), (''C'', 3)] =
     [(''A'', [mk_entry ''x'' (Finite 50)]), (''B'', [mk_entry ''x'' (Finite 50)]),
      (''C'', [mk_entry ''x'' (Finite 50)])] \<and>
   updateData [] (run [Subscribe ''A'', Subscribe ''B'', Subscribe ''C''] fresh_container) =
     (Returns, [(''A'', 1), (''B'', 2), (''C'', 3)],
      snd (snd (updateData []
        (run [Subscribe ''A'', Subscribe ''B'', Subscribe ''C''] fresh_container)))) \<and>
   delivered (snd (snd (updateData []
        (run [Subscribe ''A'', Subscribe ''B'', Subscribe ''C''] fresh_container))))
     [(''A'', 1), (''B'', 2), (''C'', 3)] =
     [(''A'', []), (''B'', []), (''C'', [])]"
proof -
  let ?w = "run [Subscribe ''A'', Subscribe ''B'', Subscribe ''C''] (fresh_container :: string world)"
  let ?tr = "[(''A'', 1 :: addr), (''B'', 2), (''C'', 3)]"
  have s: "subscribers ?w = [''A'', ''B'', ''C'']" and d: "dataset ?w = []"
    by (simp_all add: sample_simps)
  have a: "addItem (mk_entry ''x'' (Finite 50)) ?w =
      (Returns, ?tr, snd (snd (addItem (mk_entry ''x'' (Finite 50)) ?w)))"
    by (simp add: sample_simps)
  have u: "updateData [] ?w = (Returns, ?tr, snd (snd (updateData [] ?w)))"
    by (simp add: sample_simps)
  from notification_fan_out [of "''D''" ?w "mk_entry ''x'' (Finite 50)" ?tr
      "snd (snd (addItem (mk_entry ''x'' (Finite 50)) ?w))" "[]"] a s d
  have 1: "delivered (snd (snd (addItem (mk_entry ''x'' (Finite 50)) ?w))) ?tr =
     [(''A'', [mk_entry ''x'' (Finite 50)]), (''B'', [mk_entry ''x'' (Finite 50)]),
      (''C'', [mk_entry ''x'' (Finite 50)])]"
    by simp
  from notification_fan_out [of "''D''" ?w "mk_entry ''x'' (Finite 50)" ?tr
      "snd (snd (updateData [] ?w))" "[]"] u s
  have 2: "delivered (snd (snd (updateData [] ?w))) ?tr = [(''A'', []), (''B'', []), (''C'', [])]"
    by simp
  from a u 1 2 show ?thesis by simp
qed



text \<open>
  Claim C8: getData has no way to fail (it is a total function without a throwing
  branch) and no side effect: in every state a container can reach, it returns a newly
  allocated array that holds the dataset, and leaves the dataset, the subscriber list and
  every array that existed before as they were. The addresses below \<open>fresh\<close> are the
  ones allocated so far: the address returned is \<open>fresh w\<close>, not allocated before, and
  it is allocated afterwards, so no later getData returns it again and two results are
  never the same array. The array returned is not the container's own: the container
  never writes to it in any later calls \<open>cs\<close> (a snapshot keeps its contents, and so
  does every array allocated earlier), and whatever a caller writes into it
  (\<open>write_array\<close>) stays there and changes nothing a later getData returns.
\<close>

theorem getData_snapshot_isolation:
  assumes "w = run calls (new_ChartState h n)" and "getData w = (a, w1)"
  shows "arrays w1 a = dataset w \<and> a \<noteq> chartData w \<and>
         dataset w1 = dataset w \<and> chartData w1 = chartData w \<and>
         subscribers w1 = subscribers w \<and>
         (\<forall>b. b \<noteq> a \<longrightarrow> arrays w1 b = arrays w b) \<and>
         observed (write_array a xs w1) = dataset w \<and>
         observed (run cs (write_array a xs w1)) = observed (run cs w1) \<and>
         fresh w \<le> a \<and> fresh w = a \<and> fresh w1 = Suc a \<and>
         fst (getData (run cs w1)) \<noteq> a \<and>
         fst (getData (run cs (write_array a xs w1))) \<noteq> a \<and>
         arrays (run cs w1) a = dataset w \<and>
         arrays (run cs (write_array a xs w1)) a = xs \<and>
         (\<forall>b. b < fresh w \<and> b \<noteq> chartData w \<longrightarrow> arrays (run cs w1) b = arrays w b)"
proof -
  from assms(2) have "fst (getData w) = a" and "snd (getData w) = w1"
    by simp_all
  then have a: "a = fresh w" and w1: "w1 = snd (getData w)"
    by (simp_all add: getData_simps)
  from assms(1) reachable_allocated [of calls h n] have lt: "chartData w < fresh w"
    by simp
  with a w1 have ne: "a \<noteq> chartData w1" and al: "a < fresh w1"
    by (simp_all add: getData_simps)
  from run_frame [of cs w1] ne have ne': "a \<noteq> chartData (run cs w1)"
    by simp
  have comm: "run cs (write_array a xs w1) = write_array a xs (run cs w1)"
    using ne al by (rule run_write_array)
  have "observed (run cs (write_array a xs w1)) = dataset (write_array a xs (run cs w1))"
    by (simp add: observed_eq comm)
  also have "\<dots> = observed (run cs w1)"
    using ne' by (simp add: write_array_simps observed_eq)
  finally have iso: "observed (run cs (write_array a xs w1)) = observed (run cs w1)" .
  have obs: "observed (write_array a xs w1) = dataset w"
    using ne w1 by (simp add: observed_eq write_array_simps getData_simps)
  from run_frame [of cs w1] al have later: "a < fresh (run cs w1)"
    by simp
  then have d1: "fst (getData (run cs w1)) \<noteq> a"
    by (simp add: getData_simps)
  from later have d2: "fst (getData (run cs (write_array a xs w1))) \<noteq> a"
    by (simp add: comm getData_simps write_array_simps)
  have k1: "arrays (run cs w1) a = dataset w"
    using run_keeps_arrays [OF ne al, of cs] a w1 by (simp add: getData_simps)
  have k2: "arrays (run cs (write_array a xs w1)) a = xs"
    unfolding comm by (simp add: write_array_def)
  have k3: "arrays (run cs w1) b = arrays w b" if "b < fresh w \<and> b \<noteq> chartData w" for b
  proof -
    from that w1 have "b \<noteq> chartData w1" and "b < fresh w1"
      by (simp_all add: getData_simps)
    then have "arrays (run cs w1) b = arrays w1 b"
      by (rule run_keeps_arrays)
    also from that a w1 have "\<dots> = arrays w b"
      by (simp add: getData_simps)
    finally show ?thesis .
  qed
  have base: "arrays w1 a = dataset w \<and> a \<noteq> chartData w \<and>
         dataset w1 = dataset w \<and> chartData w1 = chartData w \<and>
         subscribers w1 = subscribers w \<and>
         (\<forall>b. b \<noteq> a \<longrightarrow> arrays w1 b = arrays w b) \<and> fresh w1 = Suc a"
    using a w1 lt by (simp add: getData_simps dataset_def)
  from base obs iso a d1 d2 k1 k2 k3 show ?thesis by blast
qed

text \<open>
  A container that holds \<^verbatim>\<open>[{id:"x",value:50}]\<close> hands out the array at address 1, the
  first one not allocated; after the caller has emptied that array, getData still returns
  the entry, in an array at another address, and the caller's array stays empty; left
  alone, the array at address 1 keeps the entry through a later getData and addItem.
\<close>

theorem getData_snapshot_isolation_witness:
  "getData (run [AddItem (mk_entry ''x'' (Finite 50))] (new_ChartState no_arrays 0 :: string world)) =
     (1, snd (getData (run [AddItem (mk_entry ''x'' (Finite 50))] (new_ChartState no_arrays 0)))) \<and>
   arrays (snd (getData (run [AddItem (mk_entry ''x'' (Finite 50))]
       (new_ChartState no_arrays 0 :: string world)))) 1 = [mk_entry ''x'' (Finite 50)] \<and>
   observed (write_array 1 []
     (snd (getData (run [AddItem (mk_entry ''x'' (Finite 50))]
       (new_ChartState no_arrays 0 :: string world))))) = [mk_entry ''x'' (Finite 50)] \<and>
   observed (run [GetData] (write_array 1 []
     (snd (getData (run [AddItem (mk_entry ''x'' (Finite 50))]
       (new_ChartState no_arrays 0 :: string world)))))) = [mk_entry ''x'' (Finite 50)] \<and>
   fresh (run [AddItem (mk_entry ''x'' (Finite 50))] (new_ChartState no_arrays 0 :: string world)) = 1 \<and>
   fst (getData (run [GetData] (write_array 1 []
     (snd (getData (run [AddItem (mk_entry ''x'' (Finite 50))]
       (new_ChartState no_arrays 0 :: string world))))))) \<noteq> 1 \<and>
   arrays (run [GetData, AddItem (mk_entry ''y'' (Finite 1))]
     (snd (getData (run [AddItem (mk_entry ''x'' (Finite 50))]
       (new_ChartState no_arrays 0 :: string world))))) 1 = [mk_entry ''x'' (Finite 50)] \<and>
   arrays (run [GetData] (write_array 1 []
     (snd (getData (run [AddItem (mk_entry ''x'' (Finite 50))]
       (new_ChartState no_arrays 0 :: string world)))))) 1 = []"
proof -
  let ?w = "run [AddItem (mk_entry ''x'' (Finite 50))] (new_ChartState no_arrays 0 :: string world)"
  have g: "getData ?w = (1, snd (getData ?w))"
    by (simp add: sample_simps)
  have d: "dataset ?w = [mk_entry ''x'' (Finite 50)]"
    by (simp add: sample_simps)
  have o: "observed (run [GetData] (snd (getData ?w))) = [mk_entry ''x'' (Finite 50)]"
    by (simp add: sample_simps)
  from getData_snapshot_isolation [OF refl g, of "[]" "[GetData]"]
    getData_snapshot_isolation [OF refl g, of "[]" "[GetData, AddItem (mk_entry ''y'' (Finite 1))]"]
    g d o
  show ?thesis by simp
qed

lemma blank_append: "blank (xs @ ys) \<longleftrightarrow> blank xs \<and> blank ys"
  by (simp add: blank_def)

text \<open>
  Claim C9, amended: ids are compared verbatim. For an id \<open>s\<close> stored in a state the
  container can reach, a candidate whose id is \<open>s\<close> with whitespace added before or
  after it, and whose padded id is not itself stored already, passes the duplicate check
  and the empty-id check; when its value passes the two range checks it is appended with
  its id as supplied, next to the entry with id \<open>s\<close>.
\<close>

theorem padded_id_coexists:
  assumes "w = run calls (new_ChartState h n)"
    and "s \<in> set (map entry_id (dataset w))"
    and "blank l" and "blank r" and "l @ r \<noteq> []"
    and "l @ s @ r \<notin> set (map entry_id (dataset w))"
  shows "s \<noteq> l @ s @ r \<and>
         fst (addItem \<lparr>entry_id = l @ s @ r, entry_value = v\<rparr> w) \<noteq>
           Throws (DuplicateId (l @ s @ r)) \<and>
         fst (addItem \<lparr>entry_id = l @ s @ r, entry_value = v\<rparr> w) \<noteq> Throws EmptyId \<and>
         (\<not> js_gt v (Finite 100) \<and> \<not> js_lt v (Finite 0) \<longrightarrow>
            fst (addItem \<lparr>entry_id = l @ s @ r, entry_value = v\<rparr> w) = Returns \<and>
            dataset (snd (snd (addItem \<lparr>entry_id = l @ s @ r, entry_value = v\<rparr> w))) =
              dataset w @ [\<lparr>entry_id = l @ s @ r, entry_value = v\<rparr>])"
proof -
  let ?c = "\<lparr>entry_id = l @ s @ r, entry_value = v\<rparr>"
  from assms(1) reachable_dataset [of calls h n] have "list_all passed (dataset w)"
    by simp
  with assms(2) have "\<not> blank s"
    by (auto simp add: list_all_iff passed_def)
  then have nb: "\<not> blank (entry_id ?c)"
    by (simp add: blank_append)
  from assms(6) have nd: "entry_id ?c \<notin> set (map entry_id (dataset w))"
    by simp
  have ne: "s \<noteq> l @ s @ r"
  proof
    assume "s = l @ s @ r"
    then have "length s = length (l @ s @ r)" by simp
    with assms(5) show False by simp
  qed
  have f: "first_failing_check (dataset w) ?c =
      (if js_gt v (Finite 100) then Some ValueTooHigh
       else if js_lt v (Finite 0) then Some ValueTooLow else None)"
    using nb nd by (simp add: first_failing_check_unfold)
  have 1: "fst (addItem ?c w) \<noteq> Throws (DuplicateId (l @ s @ r))"
    and 2: "fst (addItem ?c w) \<noteq> Throws EmptyId"
    using f by (simp_all add: addItem_refines split: prod.splits)
  have 3: "fst (addItem ?c w) = Returns \<and> dataset (snd (snd (addItem ?c w))) = dataset w @ [?c]"
    if "\<not> js_gt v (Finite 100) \<and> \<not> js_lt v (Finite 0)"
    using f that by (simp add: addItem_dataset) (simp add: addItem_refines split: prod.splits)
  from ne 1 2 3 show ?thesis by blast
qed

text \<open>
  With \<^verbatim>\<open>"a"\<close> stored, the candidate \<^verbatim>\<open>{id:" a",value:60}\<close> is appended and both entries
  are in the dataset.
\<close>

theorem padded_id_coexists_witness:
  "js_str ''a'' \<in> set (map entry_id (dataset
      (run [AddItem (mk_entry ''a'' (Finite 50))] (new_ChartState no_arrays 0 :: string world)))) \<and>
   blank (js_str '' '') \<and> blank [] \<and> js_str '' '' @ [] \<noteq> [] \<and>
   js_str '' '' @ js_str ''a'' @ [] \<notin> set (map entry_id (dataset
      (run [AddItem (mk_entry ''a'' (Finite 50))] (new_ChartState no_arrays 0 :: string world)))) \<and>
   \<not> js_gt (Finite 60) (Finite 100) \<and> \<not> js_lt (Finite 60) (Finite 0) \<and>
   fst (addItem \<lparr>entry_id = js_str '' '' @ js_str ''a'' @ [], entry_value = Finite 60\<rparr>
      (run [AddItem (mk_entry ''a'' (Finite 50))] (new_ChartState no_arrays 0 :: string world))) =
     Returns \<and>
   dataset (snd (snd (addItem \<lparr>entry_id = js_str '' '' @ js_str ''a'' @ [], entry_value = Finite 60\<rparr>
      (run [AddItem (mk_entry ''a'' (Finite 50))] (new_ChartState no_arrays 0 :: string world))))) =
     [mk_entry ''a'' (Finite 50), mk_entry '' a'' (Finite 60)]"
proof -
  let ?w = "run [AddItem (mk_entry ''a'' (Finite 50))] (new_ChartState no_arrays 0 :: string world)"
  have d: "dataset ?w = [mk_entry ''a'' (Finite 50)]"
    by (simp add: sample_simps)
  have s: "js_str ''a'' \<in> set (map entry_id (dataset ?w))"
    by (simp add: d) (simp add: mk_entry_def)
  have l: "blank (js_str '' '')" and r: "blank []"
    by (simp_all add: check_simps)
  have n: "js_str '' '' @ [] \<noteq> []"
    by (simp add: js_str_def)
  have f: "js_str '' '' @ js_str ''a'' @ [] \<notin> set (map entry_id (dataset ?w))"
    by (simp add: d) (simp add: mk_entry_def js_str_def)
  have v: "\<not> js_gt (Finite 60) (Finite 100) \<and> \<not> js_lt (Finite 60) (Finite 0)"
    by (simp add: js_gt_def)
  have e: "\<lparr>entry_id = js_str '' '' @ js_str ''a'' @ [], entry_value = Finite 60\<rparr> =
      mk_entry '' a'' (Finite 60)"
    by (simp add: mk_entry_def js_str_def)
  from padded_id_coexists [OF refl s l r n f, of "Finite 60"] s l r n f v d e
  show ?thesis by simp
qed

text \<open>
  Claim C9 as it is worded fails when the padded id is itself stored: with \<^verbatim>\<open>"a"\<close> and
  \<^verbatim>\<open>" a"\<close> both stored, the candidate \<^verbatim>\<open>" a"\<close>, which is the stored \<^verbatim>\<open>"a"\<close> with a
  space before it, is rejected by the duplicate check.
\<close>

theorem padded_id_rejected_when_stored:
  "js_str ''a'' \<in> set (map entry_id (dataset
      (run [AddItem (mk_entry ''a'' (Finite 1)), AddItem (mk_entry '' a'' (Finite 2))]
        (fresh_container :: string world)))) \<and>
   js_str '' a'' = js_str '' '' @ js_str ''a'' \<and> is_white_space 0x20 \<and>
   fst (addItem (mk_entry '' a'' (Finite 50))
      (run [AddItem (mk_entry ''a'' (Finite 1)), AddItem (mk_entry '' a'' (Finite 2))]
        (fresh_container :: string world))) = Throws (DuplicateId (js_str '' a''))"
  by (simp add: sample_simps)

text \<open>
  Claim C10: the range validation is the pair of tests \<^verbatim>\<open>value > 100\<close> and
  \<^verbatim>\<open>value < 0\<close>: an entry whose id is new and not blank is accepted exactly when both
  are false, which is not the same as \<open>0 \<le> value \<le> 100\<close>. Both are false on NaN, which is
  not in the range, so in every state addItem of an entry with a new id, non-empty after
  trimming, and the value NaN returns and appends that entry.
\<close>

theorem NaN_passes_range_validation:
  "\<not> js_gt NaN (Finite 100) \<and> \<not> js_lt NaN (Finite 0) \<and> \<not> in_range NaN \<and>
   (entry_id c \<notin> set (map entry_id (dataset w)) \<longrightarrow> trim (entry_id c) \<noteq> [] \<longrightarrow>
      (fst (addItem c w) = Returns) =
        (\<not> js_gt (entry_value c) (Finite 100) \<and> \<not> js_lt (entry_value c) (Finite 0))) \<and>
   (s \<notin> set (map entry_id (dataset w)) \<longrightarrow> trim s \<noteq> [] \<longrightarrow>
      fst (addItem \<lparr>entry_id = s, entry_value = NaN\<rparr> w) = Returns \<and>
      dataset (snd (snd (addItem \<lparr>entry_id = s, entry_value = NaN\<rparr> w))) =
        dataset w @ [\<lparr>entry_id = s, entry_value = NaN\<rparr>])"
proof -
  have 1: "\<not> js_gt NaN (Finite 100) \<and> \<not> js_lt NaN (Finite 0) \<and> \<not> in_range NaN"
    by (simp add: js_gt_def in_range_def js_le_def)
  have 2: "(fst (addItem c w) = Returns) =
        (\<not> js_gt (entry_value c) (Finite 100) \<and> \<not> js_lt (entry_value c) (Finite 0))"
    if "entry_id c \<notin> set (map entry_id (dataset w))" and "trim (entry_id c) \<noteq> []"
    using that
    by (simp add: addItem_refines first_failing_check_unfold trim_Nil_iff split: prod.splits)
  have 3: "fst (addItem \<lparr>entry_id = s, entry_value = NaN\<rparr> w) = Returns \<and>
      dataset (snd (snd (addItem \<lparr>entry_id = s, entry_value = NaN\<rparr> w))) =
        dataset w @ [\<lparr>entry_id = s, entry_value = NaN\<rparr>]"
    if "s \<notin> set (map entry_id (dataset w))" and "trim s \<noteq> []"
  proof -
    from that have "first_failing_check (dataset w) \<lparr>entry_id = s, entry_value = NaN\<rparr> = None"
      by (simp add: first_failing_check_unfold trim_Nil_iff js_gt_def)
    then show ?thesis
      by (simp add: addItem_dataset) (simp add: addItem_refines split: prod.splits)
  qed
  from 1 2 3 show ?thesis by blast
qed

text \<open>
  \<^verbatim>\<open>addItem({id:"n",value:NaN})\<close> on a container that holds \<^verbatim>\<open>[{id:"x",value:50}]\<close>.
\<close>

theorem NaN_passes_range_validation_witness:
  "js_str ''n'' \<notin> set (map entry_id (dataset
      (run [AddItem (mk_entry ''x'' (Finite 50))] (fresh_container :: string world)))) \<and>
   trim (js_str ''n'') \<noteq> [] \<and>
   fst (addItem \<lparr>entry_id = js_str ''n'', entry_value = NaN\<rparr>
      (run [AddItem (mk_entry ''x'' (Finite 50))] (fresh_container :: string world))) = Returns \<and>
   dataset (snd (snd (addItem \<lparr>entry_id = js_str ''n'', entry_value = NaN\<rparr>
      (run [AddItem (mk_entry ''x'' (Finite 50))] (fresh_container :: string world))))) =
     [mk_entry ''x'' (Finite 50), mk_entry ''n'' NaN]"
proof -
  let ?w = "run [AddItem (mk_entry ''x'' (Finite 50))] (fresh_container :: string world)"
  have d: "dataset ?w = [mk_entry ''x'' (Finite 50)]"
    by (simp add: sample_simps)
  have f: "js_str ''n'' \<notin> set (map entry_id (dataset ?w))"
    by (simp add: d) (simp add: mk_entry_def js_str_def)
  have t: "trim (js_str ''n'') \<noteq> []"
    by (simp add: trim_def js_str_def is_white_space_def white_space_def)
  have e: "\<lparr>entry_id = js_str ''n'', entry_value = NaN\<rparr> = mk_entry ''n'' NaN"
    by (simp add: mk_entry_def)
  from NaN_passes_range_validation [of "mk_entry ''n'' NaN" ?w "js_str ''n''"] f t d e
  show ?thesis by simp
qed

end
